theory Spec2Isabelle
  imports Main "HOL-Library.Word" "HOL-Library.Multiset"
begin

section \<open>The NATS message-queue trigger (mqtrigger/messageQueue/nats.go)\<close>

text \<open>
  The file verified here subscribes a trigger to a NATS-streaming channel and, for every
  message delivered on it, posts the message to a function through the router, retries,
  and then acknowledges the message or publishes the failure.

  The embedding follows the Go text of \<open>subscribe\<close>, \<open>isTopicValidForNats\<close> and
  \<open>msgHandler\<close>. Everything the handler does to the outside (an HTTP call, an
  acknowledge, a publish, the deferred close of the response body, a subscribe) is
  written to a list of events in the order of the calls. Calls to the logger other than
  \<open>log.Fatalf\<close> do not change the control flow and are left out; \<open>log.Fatalf\<close>
  ends the process and is an outcome of the handler.
\<close>

subsection \<open>Data\<close>

type_synonym bytes = "8 word list"

text \<open>A Go \<open>error\<close>: \<open>None\<close> is \<open>nil\<close>, \<open>Some s\<close> an error with message \<open>s\<close>.\<close>

type_synonym go_error = "string option"

text \<open>
  The trigger object (package \<open>crd\<close>), with the fields the file reads. \<open>MaxRetries\<close>
  is a Go \<open>int\<close>; the loop counter runs below it, so no arithmetic on it can wrap,
  and it is an \<open>int\<close> here.
\<close>

record FunctionReference =
  Type :: string
  Name :: string

record ObjectMeta =
  MetaName :: string
  UID :: string

record MessageQueueTriggerSpec =
  FunctionReference :: FunctionReference
  Topic :: string
  ResponseTopic :: string
  ErrorTopic :: string
  MaxRetries :: int
  ContentType :: string

record MessageQueueTrigger =
  Metadata :: ObjectMeta
  Spec :: MessageQueueTriggerSpec

text \<open>The message of the broker (\<open>ns.Msg\<close>) and the receiver \<open>Nats\<close>.\<close>

record Msg =
  Data :: bytes

record Nats =
  routerUrl :: string

text \<open>
  \<open>bytes.NewReader(msg.Data)\<close>: the slice and the offset of the next byte to read.
  Reading moves the offset forward; nothing in the handler moves it back.
\<close>

record Reader =
  rd_data :: bytes
  rd_off :: nat

definition NewReader :: "bytes \<Rightarrow> Reader" where
  "NewReader b = \<lparr>rd_data = b, rd_off = 0\<rparr>"

definition Reader_remaining :: "Reader \<Rightarrow> bytes" where
  "Reader_remaining r = drop (rd_off r) (rd_data r)"

definition Reader_advance :: "nat \<Rightarrow> Reader \<Rightarrow> Reader" where
  "Reader_advance n r = r\<lparr>rd_off := min (length (rd_data r)) (rd_off r + n)\<rparr>"

text \<open>
  An \<open>http.Request\<close>. The header is Go's \<open>map[string][]string\<close>, kept as an
  association list with one entry per key.
\<close>

record Request =
  Method :: string
  URL :: string
  Header :: "(string \<times> string list) list"
  Body :: Reader

text \<open>
  An \<open>http.Response\<close>: its status code, and what \<open>ioutil.ReadAll(resp.Body)\<close>
  gives for it (the bytes read and the error of the read).
\<close>

record Response =
  StatusCode :: int
  RespBody :: "bytes \<times> go_error"

text \<open>
  What one call \<open>http.DefaultClient.Do(req)\<close> gives back: the response pointer
  (\<open>None\<close> is \<open>nil\<close>), the error, and the number of bytes the transport read from
  the request's body reader during the call.
\<close>

record DoResult =
  resp :: "Response option"
  err :: go_error
  nread :: nat

text \<open>
  The code outside the file, as parameters: the constant and the URL helper of package
  \<open>fission\<close>, the channel-name check of the NATS-streaming server, the failure of
  \<open>http.NewRequest\<close> for a method and a URL, the HTTP client (a function of the number
  of calls made before and of the request as it is at the call), the results of the
  broker's \<open>Ack\<close>, \<open>Publish\<close> and \<open>Subscribe\<close>, and the order in which
  \<open>range\<close> walks the map of headers.
\<close>

record World =
  FunctionReferenceTypeFunctionName :: string
  UrlForFunction :: "string \<Rightarrow> string"
  IsChannelNameValid :: "string \<Rightarrow> bool \<Rightarrow> bool"
  NewRequest_err :: "string \<Rightarrow> string \<Rightarrow> go_error"
  Do :: "nat \<Rightarrow> Request \<Rightarrow> DoResult"
  Ack :: go_error
  Publish :: "string \<Rightarrow> bytes \<Rightarrow> go_error"
  Subscribe :: "string \<Rightarrow> string \<Rightarrow> bool \<Rightarrow> go_error"
  RangeOrder :: "(string \<times> string) list \<Rightarrow> (string \<times> string) list"

datatype event =
    EvDo Request DoResult
  | EvAck
  | EvPublish string bytes
  | EvCloseBody
  | EvSubscribe string string bool

text \<open>
  How a run of the handler ends: it returns, \<open>log.Fatalf\<close> exits the process, or a
  nil pointer is dereferenced and the goroutine panics.
\<close>

datatype outcome = Returned | Exited | Panicked

subsection \<open>Library functions the handler calls\<close>

definition TrimPrefix :: "string \<Rightarrow> string \<Rightarrow> string" where
  "TrimPrefix s p = (if take (length p) s = p then drop (length p) s else s)"

text \<open>
  \<open>Header.Add\<close> and \<open>Header.Get\<close> of net/http first bring the key to its canonical
  form (\<open>textproto.CanonicalMIMEHeaderKey\<close>): a key made of token bytes only gets an
  upper-case letter at the start and after each hyphen and lower-case letters elsewhere;
  any other key is left as it is.
\<close>

definition isLower :: "char \<Rightarrow> bool" where
  "isLower c \<longleftrightarrow> 97 \<le> (of_char c :: nat) \<and> (of_char c :: nat) \<le> 122"

definition isUpper :: "char \<Rightarrow> bool" where
  "isUpper c \<longleftrightarrow> 65 \<le> (of_char c :: nat) \<and> (of_char c :: nat) \<le> 90"

definition isDigit :: "char \<Rightarrow> bool" where
  "isDigit c \<longleftrightarrow> 48 \<le> (of_char c :: nat) \<and> (of_char c :: nat) \<le> 57"

definition validHeaderFieldByte :: "char \<Rightarrow> bool" where
  "validHeaderFieldByte c \<longleftrightarrow>
     isLower c \<or> isUpper c \<or> isDigit c \<or>
     (of_char c :: nat) \<in> {33, 35, 36, 37, 38, 39, 42, 43, 45, 46, 94, 95, 96, 124, 126}"

fun canon_from :: "bool \<Rightarrow> string \<Rightarrow> string" where
  "canon_from upper [] = []"
| "canon_from upper (c # cs) =
     (let c' = (if upper \<and> isLower c then char_of (of_char c - (32::nat))
                else if \<not> upper \<and> isUpper c then char_of (of_char c + (32::nat))
                else c)
      in c' # canon_from (c' = CHR ''-'') cs)"

definition CanonicalMIMEHeaderKey :: "string \<Rightarrow> string" where
  "CanonicalMIMEHeaderKey s = (if list_all validHeaderFieldByte s then canon_from True s else s)"

definition Header_Add :: "(string \<times> string list) list \<Rightarrow> string \<Rightarrow> string \<Rightarrow> (string \<times> string list) list" where
  "Header_Add h key v =
     (let k = CanonicalMIMEHeaderKey key
      in case map_of h k of
           None \<Rightarrow> h @ [(k, [v])]
         | Some vs \<Rightarrow> map (\<lambda>(k', vs'). if k' = k then (k', vs' @ [v]) else (k', vs')) h)"

definition Header_Get :: "(string \<times> string list) list \<Rightarrow> string \<Rightarrow> string" where
  "Header_Get h key =
     (case map_of h (CanonicalMIMEHeaderKey key) of
        None \<Rightarrow> []
      | Some [] \<Rightarrow> []
      | Some (v # vs) \<Rightarrow> v)"

text \<open>
  \<open>http.NewRequest(method, url, body)\<close>: an error for a method or URL it rejects,
  else a request with an empty header whose body is the reader given.
\<close>

definition NewRequest :: "World \<Rightarrow> string \<Rightarrow> string \<Rightarrow> Reader \<Rightarrow> string + Request" where
  "NewRequest w method url body =
     (case NewRequest_err w method url of
        Some e \<Rightarrow> Inl e
      | None \<Rightarrow> Inr \<lparr>Method = method, URL = url, Header = [], Body = body\<rparr>)"

subsection \<open>subscribe\<close>

definition isTopicValidForNats :: "World \<Rightarrow> string \<Rightarrow> bool" where
  "isTopicValidForNats w topic = IsChannelNameValid w topic False"

text \<open>
  \<open>subscribe\<close> gives an error or the subscription (here the subject subscribed to), with
  the calls it made to the broker. The two options are the durable name, which is the
  trigger's UID, and the manual acknowledge mode.
\<close>

definition subscribe :: "World \<Rightarrow> Nats \<Rightarrow> MessageQueueTrigger \<Rightarrow> (string + string) \<times> event list" where
  "subscribe w nats trigger =
     (let subj = Topic (Spec trigger)
      in if \<not> isTopicValidForNats w subj
         then (Inl (''Not a valid topic: '' @ Topic (Spec trigger)), [])
         else (case Subscribe w subj (UID (Metadata trigger)) True of
                 Some e \<Rightarrow> (Inl e, [EvSubscribe subj (UID (Metadata trigger)) True])
               | None \<Rightarrow> (Inr subj, [EvSubscribe subj (UID (Metadata trigger)) True])))"

subsection \<open>msgHandler\<close>

text \<open>
  The retry loop of lines 136 to 150, from the iteration numbered \<open>attempt\<close> on, with
  the variables \<open>resp\<close> and \<open>err\<close> of the handler and the one request object. It
  gives the values of \<open>resp\<close> and \<open>err\<close> after the loop, the request as the calls have
  left it, and the calls made.
\<close>

function retry_loop ::
  "World \<Rightarrow> int \<Rightarrow> int \<Rightarrow> Request \<Rightarrow> Response option \<Rightarrow> go_error
     \<Rightarrow> Response option \<times> go_error \<times> Request \<times> event list" where
  "retry_loop w maxRetries attempt req resp0 err0 =
     (if attempt < maxRetries then
        (let res = Do w (nat attempt) req;
             req' = req\<lparr>Body := Reader_advance (nread res) (Body req)\<rparr>
         in case resp res of
              None \<Rightarrow>
                (case retry_loop w maxRetries (attempt + 1) req' (resp res) (err res) of
                   (r, e, q, evs) \<Rightarrow> (r, e, q, EvDo req res # evs))
            | Some rp \<Rightarrow>
                if err res = None \<and> StatusCode rp = 200
                then (resp res, err res, req', [EvDo req res])
                else (case retry_loop w maxRetries (attempt + 1) req' (resp res) (err res) of
                        (r, e, q, evs) \<Rightarrow> (r, e, q, EvDo req res # evs)))
      else (resp0, err0, req, []))"
  by pat_completeness auto
termination
  by (relation "measure (\<lambda>(w, maxRetries, attempt, req, resp0, err0). nat (maxRetries - attempt))") auto

text \<open>The map of headers of lines 106 to 111, in the order of the source text.\<close>

definition headers :: "MessageQueueTrigger \<Rightarrow> (string \<times> string) list" where
  "headers trigger =
     [(''X-Fission-MQTrigger-Topic'', Topic (Spec trigger)),
      (''X-Fission-MQTrigger-RespTopic'', ResponseTopic (Spec trigger)),
      (''X-Fission-MQTrigger-ErrorTopic'', ErrorTopic (Spec trigger)),
      (''Content-Type'', ContentType (Spec trigger))]"

definition add_headers :: "(string \<times> string) list \<Rightarrow> Request \<Rightarrow> Request" where
  "add_headers hs req = fold (\<lambda>(k, v) r. r\<lparr>Header := Header_Add (Header r) k v\<rparr>) hs req"

definition function_url :: "World \<Rightarrow> Nats \<Rightarrow> MessageQueueTrigger \<Rightarrow> string" where
  "function_url w nats trigger =
     routerUrl nats @ ''/'' @
       TrimPrefix (UrlForFunction w (Name (FunctionReference (Spec trigger)))) ''/''"

text \<open>
  The handler. After the loop, \<open>defer resp.Body.Close()\<close> evaluates \<open>resp.Body\<close>
  at the \<open>defer\<close> statement, which panics on a nil \<open>resp\<close>; the test
  \<open>resp == nil\<close> of line 155 comes after it. The deferred close runs when the
  handler returns. The errors that \<open>msg.Ack\<close> and \<open>Publish\<close> return are logged
  and nothing else is done with them, so the two calls are events and their results
  do not appear.
\<close>

definition msgHandler :: "World \<Rightarrow> Nats \<Rightarrow> MessageQueueTrigger \<Rightarrow> Msg \<Rightarrow> outcome \<times> event list" where
  "msgHandler w nats trigger msg =
     (if Type (FunctionReference (Spec trigger)) \<noteq> FunctionReferenceTypeFunctionName w
      then (Exited, [])
      else
        let url = function_url w nats trigger
        in case NewRequest w ''POST'' url (NewReader (Data msg)) of
             Inl e \<Rightarrow> (Returned, [])
           | Inr req0 \<Rightarrow>
               let req = add_headers (RangeOrder w (headers trigger)) req0
               in case retry_loop w (MaxRetries (Spec trigger)) 0 req None None of
                    (resp1, err1, req1, evs) \<Rightarrow>
                      (case resp1 of
                         None \<Rightarrow> (Panicked, evs)
                       | Some rp \<Rightarrow>
                           if resp1 = None then (Returned, evs @ [EvCloseBody])
                           else
                             (case RespBody rp of
                                (body, bodyErr) \<Rightarrow>
                                  if bodyErr \<noteq> None then (Returned, evs @ [EvCloseBody])
                                  else if err1 \<noteq> None \<or> StatusCode rp \<noteq> 200 then
                                    (if length (ErrorTopic (Spec trigger)) > 0
                                     then (Returned, evs @ [EvPublish (ErrorTopic (Spec trigger)) body, EvCloseBody])
                                     else (Returned, evs @ [EvCloseBody]))
                                  else
                                    (if length (ResponseTopic (Spec trigger)) > 0
                                     then (Returned, evs @ [EvAck, EvPublish (ResponseTopic (Spec trigger)) body, EvCloseBody])
                                     else (Returned, evs @ [EvAck, EvCloseBody])))))"

subsection \<open>What a run shows\<close>

text \<open>
  The properties below are stated on the list of events of a run. An attempt is one call
  of the HTTP client; it succeeded when it gave a response, no error and status 200,
  which is the test of line 146. \<open>body_readable\<close> says that reading the body of the
  attempt's response gives no error. \<open>attempts\<close> and \<open>publishes\<close> pick the client
  calls and the publish calls out of a list of events, in order.
\<close>

definition attempt_ok :: "DoResult \<Rightarrow> bool" where
  "attempt_ok res =
     (case resp res of None \<Rightarrow> False | Some rp \<Rightarrow> err res = None \<and> StatusCode rp = 200)"

definition body_readable :: "DoResult \<Rightarrow> bool" where
  "body_readable res =
     (case resp res of None \<Rightarrow> False | Some rp \<Rightarrow> snd (RespBody rp) = None)"

fun attempts :: "event list \<Rightarrow> (Request \<times> DoResult) list" where
  "attempts [] = []"
| "attempts (EvDo q res # evs) = (q, res) # attempts evs"
| "attempts (e # evs) = attempts evs"

fun publishes :: "event list \<Rightarrow> (string \<times> bytes) list" where
  "publishes [] = []"
| "publishes (EvPublish t b # evs) = (t, b) # publishes evs"
| "publishes (e # evs) = publishes evs"

text \<open>
  The pieces of the handler named for the lemmas: the request after one call of the
  client, the request the loop starts with, the events after the loop for a non-nil
  \<open>resp\<close>, and the test of line 167 negated.
\<close>

definition step_request :: "Request \<Rightarrow> DoResult \<Rightarrow> Request" where
  "step_request req res = req\<lparr>Body := Reader_advance (nread res) (Body req)\<rparr>"

definition first_request :: "World \<Rightarrow> Nats \<Rightarrow> MessageQueueTrigger \<Rightarrow> Msg \<Rightarrow> Request" where
  "first_request w nats trigger msg =
     add_headers (RangeOrder w (headers trigger))
       \<lparr>Method = ''POST'', URL = function_url w nats trigger, Header = [],
        Body = NewReader (Data msg)\<rparr>"

definition after_loop :: "MessageQueueTrigger \<Rightarrow> Response \<Rightarrow> go_error \<Rightarrow> event list" where
  "after_loop trigger rp e =
     (if snd (RespBody rp) \<noteq> None then [EvCloseBody]
      else if e \<noteq> None \<or> StatusCode rp \<noteq> 200 then
        (if ErrorTopic (Spec trigger) \<noteq> []
         then [EvPublish (ErrorTopic (Spec trigger)) (fst (RespBody rp)), EvCloseBody]
         else [EvCloseBody])
      else
        (if ResponseTopic (Spec trigger) \<noteq> []
         then [EvAck, EvPublish (ResponseTopic (Spec trigger)) (fst (RespBody rp)), EvCloseBody]
         else [EvAck, EvCloseBody]))"

definition final_ok :: "Response option \<Rightarrow> go_error \<Rightarrow> bool" where
  "final_ok r e = (case r of None \<Rightarrow> False | Some rp \<Rightarrow> e = None \<and> StatusCode rp = 200)"


subsection \<open>Example inputs\<close>

text \<open>
  A world where \<open>http.NewRequest\<close> rejects a URL that holds a percent sign not
  followed by two hexadecimal digits (the URL parser's invalid escape) and accepts the
  others, with a broker that accepts every call and every channel name without a
  wildcard, a \<open>range\<close> that walks the headers backwards, and the HTTP client given as
  argument: one that never connects, and one that reads the whole request body and
  answers with a fixed status and body.
\<close>

definition ishex :: "char \<Rightarrow> bool" where
  "ishex c \<longleftrightarrow>
     isDigit c \<or> (97 \<le> (of_char c :: nat) \<and> (of_char c :: nat) \<le> 102)
     \<or> (65 \<le> (of_char c :: nat) \<and> (of_char c :: nat) \<le> 70)"

fun invalid_escape :: "string \<Rightarrow> bool" where
  "invalid_escape [] = False"
| "invalid_escape (c # cs) =
     (if c = CHR ''%'' then
        (case cs of
           a # b # rest \<Rightarrow> (if ishex a \<and> ishex b then invalid_escape rest else True)
         | _ \<Rightarrow> True)
      else invalid_escape cs)"

definition example_world :: "(nat \<Rightarrow> Request \<Rightarrow> DoResult) \<Rightarrow> World" where
  "example_world d =
     \<lparr>FunctionReferenceTypeFunctionName = ''name'',
      UrlForFunction = (\<lambda>n. ''/fission-function/'' @ n),
      IsChannelNameValid = (\<lambda>t wild. t \<noteq> [] \<and> (wild \<or> (CHR ''*'' \<notin> set t \<and> CHR ''>'' \<notin> set t))),
      NewRequest_err = (\<lambda>m u. if invalid_escape u then Some ''invalid URL escape'' else None),
      Do = d,
      Ack = None,
      Publish = (\<lambda>t b. None),
      Subscribe = (\<lambda>s d m. None),
      RangeOrder = rev\<rparr>"

definition example_trigger :: "string \<Rightarrow> string \<Rightarrow> int \<Rightarrow> string \<Rightarrow> string \<Rightarrow> MessageQueueTrigger" where
  "example_trigger ty fn n rt et =
     \<lparr>Metadata = \<lparr>MetaName = ''trig'', UID = ''uid-1''\<rparr>,
      Spec = \<lparr>FunctionReference = \<lparr>Type = ty, Name = fn\<rparr>,
              Topic = ''in'', ResponseTopic = rt, ErrorTopic = et,
              MaxRetries = n, ContentType = ''text/plain''\<rparr>\<rparr>"

definition example_nats :: Nats where
  "example_nats = \<lparr>routerUrl = ''http://router''\<rparr>"

definition example_msg :: Msg where
  "example_msg = \<lparr>Data = [104, 105]\<rparr>"

definition do_unreachable :: "nat \<Rightarrow> Request \<Rightarrow> DoResult" where
  "do_unreachable k req = \<lparr>resp = None, err = Some ''connection refused'', nread = 0\<rparr>"

definition do_status :: "int \<Rightarrow> bytes \<times> go_error \<Rightarrow> nat \<Rightarrow> Request \<Rightarrow> DoResult" where
  "do_status code rb k req =
     \<lparr>resp = Some \<lparr>StatusCode = code, RespBody = rb\<rparr>, err = None,
      nread = length (Reader_remaining (Body req))\<rparr>"

definition wildcard_trigger :: MessageQueueTrigger where
  "wildcard_trigger =
     \<lparr>Metadata = \<lparr>MetaName = ''trig'', UID = ''uid-2''\<rparr>,
      Spec = \<lparr>FunctionReference = \<lparr>Type = ''name'', Name = ''hello''\<rparr>,
              Topic = ''orders.*'', ResponseTopic = '''', ErrorTopic = '''',
              MaxRetries = 3, ContentType = ''text/plain''\<rparr>\<rparr>"

text \<open>
  The request the handler builds in the example world for the function \<open>hello\<close> and
  the response topic \<open>out\<close>, with the error topic and the offset of its body reader as
  arguments: the header keys are in canonical form.
\<close>

definition example_request :: "string \<Rightarrow> nat \<Rightarrow> Request" where
  "example_request et off =
     \<lparr>Method = ''POST'', URL = ''http://router/fission-function/hello'',
      Header =
        [(''Content-Type'', [''text/plain'']),
         (''X-Fission-Mqtrigger-Errortopic'', [et]),
         (''X-Fission-Mqtrigger-Resptopic'', [''out'']),
         (''X-Fission-Mqtrigger-Topic'', [''in''])],
      Body = \<lparr>rd_data = [104, 105], rd_off = off\<rparr>\<rparr>"

section \<open>The retry loop\<close>

declare retry_loop.simps [simp del]

lemma retry_loop_stop:
  "\<not> attempt < m \<Longrightarrow> retry_loop w m attempt req r0 e0 = (r0, e0, req, [])"
  by (simp add: retry_loop.simps)

lemma retry_loop_ok:
  "attempt < m \<Longrightarrow> attempt_ok (Do w (nat attempt) req) \<Longrightarrow>
   retry_loop w m attempt req r0 e0 =
     (resp (Do w (nat attempt) req), err (Do w (nat attempt) req),
      step_request req (Do w (nat attempt) req), [EvDo req (Do w (nat attempt) req)])"
  by (subst retry_loop.simps) (simp add: attempt_ok_def step_request_def Let_def split: option.splits)

lemma retry_loop_fail:
  "attempt < m \<Longrightarrow> \<not> attempt_ok (Do w (nat attempt) req) \<Longrightarrow>
   retry_loop w m attempt req r0 e0 =
     (case retry_loop w m (attempt + 1) (step_request req (Do w (nat attempt) req))
             (resp (Do w (nat attempt) req)) (err (Do w (nat attempt) req)) of
        (r, e, q, evs) \<Rightarrow> (r, e, q, EvDo req (Do w (nat attempt) req) # evs))"
  by (subst retry_loop.simps) (auto simp add: attempt_ok_def step_request_def Let_def split: option.splits)

lemma retry_loop_induct [case_names step]:
  fixes w :: World
  assumes "\<And>attempt req r0 e0.
     (attempt < m \<Longrightarrow> \<not> attempt_ok (Do w (nat attempt) req) \<Longrightarrow>
        P (attempt + 1) (step_request req (Do w (nat attempt) req))
          (resp (Do w (nat attempt) req)) (err (Do w (nat attempt) req)))
     \<Longrightarrow> P attempt req r0 e0"
  shows "P attempt req r0 e0"
proof (induction "nat (m - attempt)" arbitrary: attempt req r0 e0 rule: less_induct)
  case less
  show ?case
  proof (rule assms)
    assume "attempt < m"
    then have "nat (m - (attempt + 1)) < nat (m - attempt)" by simp
    then show "P (attempt + 1) (step_request req (Do w (nat attempt) req))
          (resp (Do w (nat attempt) req)) (err (Do w (nat attempt) req))"
      by (rule less)
  qed
qed


lemma attempts_append: "attempts (xs @ ys) = attempts xs @ attempts ys"
  by (induction xs rule: attempts.induct) simp_all

lemma publishes_append: "publishes (xs @ ys) = publishes xs @ publishes ys"
  by (induction xs rule: publishes.induct) simp_all

lemma retry_loop_cases [consumes 1, case_names stop ok fail]:
  fixes w :: World
  assumes "retry_loop w m attempt req r0 e0 = (r, e, q, evs)"
    and "\<not> attempt < m \<Longrightarrow> r = r0 \<Longrightarrow> e = e0 \<Longrightarrow> q = req \<Longrightarrow> evs = [] \<Longrightarrow> thesis"
    and "attempt < m \<Longrightarrow> attempt_ok (Do w (nat attempt) req) \<Longrightarrow>
         r = resp (Do w (nat attempt) req) \<Longrightarrow> e = err (Do w (nat attempt) req) \<Longrightarrow>
         q = step_request req (Do w (nat attempt) req) \<Longrightarrow>
         evs = [EvDo req (Do w (nat attempt) req)] \<Longrightarrow> thesis"
    and "\<And>evs'. attempt < m \<Longrightarrow> \<not> attempt_ok (Do w (nat attempt) req) \<Longrightarrow>
         retry_loop w m (attempt + 1) (step_request req (Do w (nat attempt) req))
           (resp (Do w (nat attempt) req)) (err (Do w (nat attempt) req)) = (r, e, q, evs') \<Longrightarrow>
         evs = EvDo req (Do w (nat attempt) req) # evs' \<Longrightarrow> thesis"
  shows thesis
proof (cases "attempt < m")
  case False
  with assms(1) assms(2) show ?thesis by (simp add: retry_loop_stop)
next
  case lt: True
  show ?thesis
  proof (cases "attempt_ok (Do w (nat attempt) req)")
    case True
    with lt assms(1) assms(3) show ?thesis by (simp add: retry_loop_ok)
  next
    case False
    obtain r' e' q' evs' where rec:
      "retry_loop w m (attempt + 1) (step_request req (Do w (nat attempt) req))
           (resp (Do w (nat attempt) req)) (err (Do w (nat attempt) req)) = (r', e', q', evs')"
      by (metis prod_cases4)
    with lt False assms(1) have "r = r'" "e = e'" "q = q'" "evs = EvDo req (Do w (nat attempt) req) # evs'"
      by (simp_all add: retry_loop_fail)
    with rec lt False assms(4) show ?thesis by simp
  qed
qed

lemma loop_only_attempts:
  fixes w :: World
  shows "retry_loop w m attempt req r0 e0 = (r, e, q, evs) \<Longrightarrow>
         evs = map (\<lambda>(x, res). EvDo x res) (attempts evs)"
proof (induction attempt req r0 e0 arbitrary: evs rule: retry_loop_induct [where w = w and m = m])
  case (step attempt req r0 e0)
  from step.prems show ?case
  proof (cases rule: retry_loop_cases)
    case stop
    then show ?thesis by simp
  next
    case ok
    then show ?thesis by simp
  next
    case (fail evs')
    with step.IH [of evs'] show ?thesis by simp
  qed
qed

lemma loop_final:
  fixes w :: World
  shows "retry_loop w m attempt req r0 e0 = (r, e, q, evs) \<Longrightarrow>
         (if attempts evs = [] then r = r0 \<and> e = e0
          else r = resp (snd (last (attempts evs))) \<and> e = err (snd (last (attempts evs))))"
proof (induction attempt req r0 e0 arbitrary: evs rule: retry_loop_induct [where w = w and m = m])
  case (step attempt req r0 e0)
  from step.prems show ?case
  proof (cases rule: retry_loop_cases)
    case stop
    then show ?thesis by simp
  next
    case ok
    then show ?thesis by simp
  next
    case (fail evs')
    with step.IH [of evs'] show ?thesis by (simp split: if_splits)
  qed
qed

lemma loop_butlast_fail:
  fixes w :: World
  shows "retry_loop w m attempt req r0 e0 = (r, e, q, evs) \<Longrightarrow>
         a \<in> set (butlast (attempts evs)) \<Longrightarrow> \<not> attempt_ok (snd a)"
proof (induction attempt req r0 e0 arbitrary: evs rule: retry_loop_induct [where w = w and m = m])
  case (step attempt req r0 e0)
  from step.prems(1) show ?case
  proof (cases rule: retry_loop_cases)
    case stop
    with step.prems(2) show ?thesis by simp
  next
    case ok
    with step.prems(2) show ?thesis by simp
  next
    case (fail evs')
    with step.IH [of evs'] step.prems(2) show ?thesis by (auto split: if_splits)
  qed
qed

lemma loop_count:
  fixes w :: World
  assumes "\<And>k x. \<not> attempt_ok (Do w k x)"
  shows "retry_loop w m attempt req r0 e0 = (r, e, q, evs) \<Longrightarrow>
         length (attempts evs) = nat (m - attempt)"
proof (induction attempt req r0 e0 arbitrary: evs rule: retry_loop_induct [where w = w and m = m])
  case (step attempt req r0 e0)
  from step.prems(1) show ?case
  proof (cases rule: retry_loop_cases)
    case stop
    then show ?thesis by simp
  next
    case ok
    with assms show ?thesis by simp
  next
    case (fail evs')
    with step.IH [of evs'] show ?thesis by (simp add: nat_diff_distrib')
  qed
qed


lemma loop_ok_iff:
  fixes w :: World
  assumes "retry_loop w m attempt req None None = (r, e, q, evs)"
  shows "(\<exists>a\<in>set (attempts evs). attempt_ok (snd a)) \<longleftrightarrow> final_ok r e"
proof (cases "attempts evs = []")
  case True
  with loop_final [OF assms] show ?thesis by (simp add: final_ok_def)
next
  case False
  with loop_final [OF assms]
  have fin: "r = resp (snd (last (attempts evs)))" "e = err (snd (last (attempts evs)))"
    by simp_all
  then have *: "final_ok r e = attempt_ok (snd (last (attempts evs)))"
    by (simp add: final_ok_def attempt_ok_def)
  have "set (attempts evs) = insert (last (attempts evs)) (set (butlast (attempts evs)))"
    using False by (metis append_butlast_last_id list.simps(15) rotate1.simps(2) set_rotate1)
  with loop_butlast_fail [OF assms] * show ?thesis by auto
qed

lemma msgHandler_exit:
  "Type (FunctionReference (Spec trigger)) \<noteq> FunctionReferenceTypeFunctionName w \<Longrightarrow>
   msgHandler w nats trigger msg = (Exited, [])"
  by (simp add: msgHandler_def)

lemma msgHandler_nobuild:
  "Type (FunctionReference (Spec trigger)) = FunctionReferenceTypeFunctionName w \<Longrightarrow>
   NewRequest_err w ''POST'' (function_url w nats trigger) \<noteq> None \<Longrightarrow>
   msgHandler w nats trigger msg = (Returned, [])"
  by (auto simp add: msgHandler_def NewRequest_def)

lemma msgHandler_reach:
  assumes "Type (FunctionReference (Spec trigger)) = FunctionReferenceTypeFunctionName w"
    and "NewRequest_err w ''POST'' (function_url w nats trigger) = None"
    and "retry_loop w (MaxRetries (Spec trigger)) 0 (first_request w nats trigger msg) None None
           = (r, e, q, evs)"
  shows "msgHandler w nats trigger msg =
           (case r of None \<Rightarrow> (Panicked, evs)
            | Some rp \<Rightarrow> (Returned, evs @ after_loop trigger rp e))"
  using assms
  by (auto simp add: msgHandler_def NewRequest_def first_request_def after_loop_def Let_def
      split: option.splits prod.splits)

lemma msgHandler_cases [case_names exit nobuild panic returned]:
  obtains
    (exit) "Type (FunctionReference (Spec trigger)) \<noteq> FunctionReferenceTypeFunctionName w"
      "msgHandler w nats trigger msg = (Exited, [])"
  | (nobuild) "Type (FunctionReference (Spec trigger)) = FunctionReferenceTypeFunctionName w"
      "NewRequest_err w ''POST'' (function_url w nats trigger) \<noteq> None"
      "msgHandler w nats trigger msg = (Returned, [])"
  | (panic) e q evs where
      "retry_loop w (MaxRetries (Spec trigger)) 0 (first_request w nats trigger msg) None None
         = (None, e, q, evs)"
      "msgHandler w nats trigger msg = (Panicked, evs)"
  | (returned) rp e q evs where
      "retry_loop w (MaxRetries (Spec trigger)) 0 (first_request w nats trigger msg) None None
         = (Some rp, e, q, evs)"
      "msgHandler w nats trigger msg = (Returned, evs @ after_loop trigger rp e)"
proof (cases "Type (FunctionReference (Spec trigger)) = FunctionReferenceTypeFunctionName w")
  case False
  then show ?thesis using exit msgHandler_exit by blast
next
  case ty: True
  show ?thesis
  proof (cases "NewRequest_err w ''POST'' (function_url w nats trigger) = None")
    case False
    with ty show ?thesis using nobuild msgHandler_nobuild by blast
  next
    case True
    obtain r e q evs where loop:
      "retry_loop w (MaxRetries (Spec trigger)) 0 (first_request w nats trigger msg) None None
         = (r, e, q, evs)"
      by (metis prod_cases4)
    show ?thesis
    proof (cases r)
      case None
      with msgHandler_reach [OF ty True loop] loop show ?thesis using panic by simp
    next
      case (Some rp)
      with msgHandler_reach [OF ty True loop] loop show ?thesis using returned by simp
    qed
  qed
qed

lemma loop_no_ack:
  fixes w :: World
  assumes "retry_loop w m attempt req r0 e0 = (r, e, q, evs)"
  shows "EvAck \<notin> set evs"
proof
  assume "EvAck \<in> set evs"
  then have "EvAck \<in> set (map (\<lambda>(x, res). EvDo x res) (attempts evs))"
    using loop_only_attempts [OF assms] by simp
  then show False by auto
qed

lemma loop_no_publish:
  fixes w :: World
  assumes "retry_loop w m attempt req r0 e0 = (r, e, q, evs)"
  shows "publishes evs = []"
proof -
  have "publishes (map (\<lambda>(x, res). EvDo x res) as) = []" for as
    by (induction as) auto
  with loop_only_attempts [OF assms] show ?thesis by metis
qed

lemma attempts_after_loop [simp]: "attempts (after_loop trigger rp e) = []"
  by (simp add: after_loop_def)

lemma ack_after_loop:
  "EvAck \<in> set (after_loop trigger rp e) \<longleftrightarrow>
     snd (RespBody rp) = None \<and> e = None \<and> StatusCode rp = 200"
  by (auto simp add: after_loop_def)

lemma loop_last_Some:
  fixes w :: World
  assumes "retry_loop w m attempt req None None = (Some rp, e, q, evs)"
  shows "attempts evs \<noteq> [] \<and> resp (snd (last (attempts evs))) = Some rp
         \<and> err (snd (last (attempts evs))) = e"
  using loop_final [OF assms] by (auto split: if_splits)

lemma loop_events_eq:
  fixes w :: World
  assumes "retry_loop w m attempt req r0 e0 = (r, e, q, evs)"
  shows "map (\<lambda>(x, res). EvDo x res) (attempts evs) = evs"
  using loop_only_attempts [OF assms] by simp

lemma publishes_after_loop:
  "publishes (after_loop trigger rp e) =
     (if snd (RespBody rp) \<noteq> None then []
      else if e \<noteq> None \<or> StatusCode rp \<noteq> 200 then
        (if ErrorTopic (Spec trigger) \<noteq> [] then [(ErrorTopic (Spec trigger), fst (RespBody rp))] else [])
      else
        (if ResponseTopic (Spec trigger) \<noteq> [] then [(ResponseTopic (Spec trigger), fst (RespBody rp))] else []))"
  by (simp add: after_loop_def)

lemma loop_attempt_is_Do:
  fixes w :: World
  shows "retry_loop w m attempt req r0 e0 = (r, e, q, evs) \<Longrightarrow>
         a \<in> set (attempts evs) \<Longrightarrow> \<exists>k. snd a = Do w k (fst a)"
proof (induction attempt req r0 e0 arbitrary: evs rule: retry_loop_induct [where w = w and m = m])
  case (step attempt req r0 e0)
  from step.prems(1) show ?case
  proof (cases rule: retry_loop_cases)
    case stop
    with step.prems(2) show ?thesis by simp
  next
    case ok
    with step.prems(2) show ?thesis by auto
  next
    case (fail evs')
    with step.IH [of evs'] step.prems(2) show ?thesis by auto
  qed
qed


section \<open>Example runs\<close>

text \<open>
  The example inputs, run: a success, a success whose body cannot be read, a router that
  cannot be reached, failures with and without an error topic, a failure whose body
  cannot be read, an unsupported reference type, a URL that \<open>http.NewRequest\<close>
  rejects, and a single failed attempt, once with two topics and once with one topic
  named as response topic and as error topic.
\<close>

lemma run_ok:
  "msgHandler (example_world (do_status 200 ([111, 107], None))) example_nats
     (example_trigger ''name'' ''hello'' 3 ''out'' ''err'') example_msg
   = (Returned,
      [EvDo (example_request ''err'' 0)
         \<lparr>resp = Some \<lparr>StatusCode = 200, RespBody = ([111, 107], None)\<rparr>, err = None, nread = 2\<rparr>,
       EvAck, EvPublish ''out'' [111, 107], EvCloseBody])"
  by code_simp

lemma run_ok_unreadable:
  "msgHandler (example_world (do_status 200 ([], Some ''unexpected EOF''))) example_nats
     (example_trigger ''name'' ''hello'' 1 ''out'' ''err'') example_msg
   = (Returned,
      [EvDo (example_request ''err'' 0)
         \<lparr>resp = Some \<lparr>StatusCode = 200, RespBody = ([], Some ''unexpected EOF'')\<rparr>,
          err = None, nread = 2\<rparr>,
       EvCloseBody])"
  by code_simp

lemma run_unreachable:
  "msgHandler (example_world do_unreachable) example_nats
     (example_trigger ''name'' ''hello'' 3 ''out'' ''err'') example_msg
   = (Panicked,
      [EvDo (example_request ''err'' 0) \<lparr>resp = None, err = Some ''connection refused'', nread = 0\<rparr>,
       EvDo (example_request ''err'' 0) \<lparr>resp = None, err = Some ''connection refused'', nread = 0\<rparr>,
       EvDo (example_request ''err'' 0) \<lparr>resp = None, err = Some ''connection refused'', nread = 0\<rparr>])"
  by code_simp

lemma run_500:
  "msgHandler (example_world (do_status 500 ([7, 8], None))) example_nats
     (example_trigger ''name'' ''hello'' 2 ''out'' ''err'') example_msg
   = (Returned,
      [EvDo (example_request ''err'' 0)
         \<lparr>resp = Some \<lparr>StatusCode = 500, RespBody = ([7, 8], None)\<rparr>, err = None, nread = 2\<rparr>,
       EvDo (example_request ''err'' 2)
         \<lparr>resp = Some \<lparr>StatusCode = 500, RespBody = ([7, 8], None)\<rparr>, err = None, nread = 0\<rparr>,
       EvPublish ''err'' [7, 8], EvCloseBody])"
  by code_simp

lemma run_500_no_error_topic:
  "msgHandler (example_world (do_status 500 ([7, 8], None))) example_nats
     (example_trigger ''name'' ''hello'' 2 ''out'' '''') example_msg
   = (Returned,
      [EvDo (example_request '''' 0)
         \<lparr>resp = Some \<lparr>StatusCode = 500, RespBody = ([7, 8], None)\<rparr>, err = None, nread = 2\<rparr>,
       EvDo (example_request '''' 2)
         \<lparr>resp = Some \<lparr>StatusCode = 500, RespBody = ([7, 8], None)\<rparr>, err = None, nread = 0\<rparr>,
       EvCloseBody])"
  by code_simp

lemma run_500_unreadable:
  "msgHandler (example_world (do_status 500 ([], Some ''unexpected EOF''))) example_nats
     (example_trigger ''name'' ''hello'' 2 ''out'' ''err'') example_msg
   = (Returned,
      [EvDo (example_request ''err'' 0)
         \<lparr>resp = Some \<lparr>StatusCode = 500, RespBody = ([], Some ''unexpected EOF'')\<rparr>,
          err = None, nread = 2\<rparr>,
       EvDo (example_request ''err'' 2)
         \<lparr>resp = Some \<lparr>StatusCode = 500, RespBody = ([], Some ''unexpected EOF'')\<rparr>,
          err = None, nread = 0\<rparr>,
       EvCloseBody])"
  by code_simp


lemma run_nobuild:
  "msgHandler (example_world do_unreachable) example_nats
     (example_trigger ''name'' ''%zz'' 3 ''out'' ''err'') example_msg = (Returned, [])"
  by code_simp

lemma run_500_once:
  "msgHandler (example_world (do_status 500 ([7, 8], None))) example_nats
     (example_trigger ''name'' ''hello'' 1 ''out'' ''err'') example_msg
   = (Returned,
      [EvDo (example_request ''err'' 0)
         \<lparr>resp = Some \<lparr>StatusCode = 500, RespBody = ([7, 8], None)\<rparr>, err = None, nread = 2\<rparr>,
       EvPublish ''err'' [7, 8], EvCloseBody])"
  by code_simp

lemma run_500_same_topic:
  "msgHandler (example_world (do_status 500 ([7, 8], None))) example_nats
     (example_trigger ''name'' ''hello'' 1 ''out'' ''out'') example_msg
   = (Returned,
      [EvDo (example_request ''out'' 0)
         \<lparr>resp = Some \<lparr>StatusCode = 500, RespBody = ([7, 8], None)\<rparr>, err = None, nread = 2\<rparr>,
       EvPublish ''out'' [7, 8], EvCloseBody])"
  by code_simp

lemma hello_url_has_no_invalid_escape:
  "\<not> invalid_escape ''http://router/fission-function/hello''"
  by code_simp


lemma example_function_url:
  "function_url (example_world d) example_nats (example_trigger ty fn n rt et)
     = ''http://router/fission-function/'' @ fn"
  by (simp add: function_url_def example_world_def example_nats_def example_trigger_def
      TrimPrefix_def)

lemma example_hello_builds:
  "NewRequest_err (example_world d) ''POST''
     (function_url (example_world d) example_nats (example_trigger ty ''hello'' n rt et)) = None"
  using hello_url_has_no_invalid_escape
  by (simp add: example_function_url) (simp add: example_world_def)

lemma canonical_spec_key: "CanonicalMIMEHeaderKey ''X-MQTrigger-Topic'' = ''X-Mqtrigger-Topic''"
  by code_simp

lemma example_trigger_fields:
  "Type (FunctionReference (Spec (example_trigger ty fn n rt et))) = ty"
  "Name (FunctionReference (Spec (example_trigger ty fn n rt et))) = fn"
  "Topic (Spec (example_trigger ty fn n rt et)) = ''in''"
  "ResponseTopic (Spec (example_trigger ty fn n rt et)) = rt"
  "ErrorTopic (Spec (example_trigger ty fn n rt et)) = et"
  "MaxRetries (Spec (example_trigger ty fn n rt et)) = n"
  "ContentType (Spec (example_trigger ty fn n rt et)) = ''text/plain''"
  by (simp_all add: example_trigger_def)

lemma example_msg_data: "Data example_msg = [104, 105]"
  by (simp add: example_msg_def)

section \<open>Acknowledge\<close>

text \<open>
  Claim C1, as the specification has it: the acknowledge call is made if and only if some
  attempt completed without transport error and with status 200. The code reads the body
  of the response between the loop and the acknowledge (lines 160 to 164) and returns
  when the read fails, so a successful attempt whose body cannot be read is not
  acknowledged: with one attempt that answers 200 and a body that breaks off, the
  attempt succeeded and the run holds no acknowledge.
\<close>

theorem ack_iff_counterexample:
  "attempt_ok (snd (attempts (snd (msgHandler (example_world (do_status 200 ([], Some ''unexpected EOF'')))
       example_nats (example_trigger ''name'' ''hello'' 1 ''out'' ''err'') example_msg)) ! 0))
   \<and> EvAck \<notin> set (snd (msgHandler (example_world (do_status 200 ([], Some ''unexpected EOF'')))
       example_nats (example_trigger ''name'' ''hello'' 1 ''out'' ''err'') example_msg))"
  by (simp add: run_ok_unreadable attempt_ok_def)


text \<open>
  Claim C1, amended: the acknowledge call is made if and only if some attempt completed
  without transport error and with status 200 and the body of that response was read
  without error. In particular a message whose attempts all failed is never acknowledged.
\<close>

theorem ack_iff_success_and_body_read:
  "EvAck \<in> set (snd (msgHandler w nats trigger msg)) \<longleftrightarrow>
     (\<exists>a\<in>set (attempts (snd (msgHandler w nats trigger msg))).
        attempt_ok (snd a) \<and> body_readable (snd a))"
proof (cases rule: msgHandler_cases [of trigger w nats msg])
  case exit
  then show ?thesis by simp
next
  case nobuild
  then show ?thesis by simp
next
  case (panic e q evs)
  from loop_ok_iff [OF panic(1)] have "\<not> (\<exists>a\<in>set (attempts evs). attempt_ok (snd a))"
    by (simp add: final_ok_def)
  with panic(2) loop_no_ack [OF panic(1)] show ?thesis by auto
next
  case (returned rp e q evs)
  note last = loop_last_Some [OF returned(1)]
  have ok: "(\<exists>a\<in>set (attempts evs). attempt_ok (snd a)) \<longleftrightarrow> e = None \<and> StatusCode rp = 200"
    using loop_ok_iff [OF returned(1)] by (simp add: final_ok_def)
  have only_last: "a \<in> set (attempts evs) \<Longrightarrow> attempt_ok (snd a) \<Longrightarrow> a = last (attempts evs)" for a
    using loop_butlast_fail [OF returned(1)] last
    by (metis append_butlast_last_id in_set_butlast_appendI insert_iff list.simps(15) rotate1.simps(2) set_rotate1 set_append Un_iff empty_iff empty_set)
  have "(\<exists>a\<in>set (attempts evs). attempt_ok (snd a) \<and> body_readable (snd a)) \<longleftrightarrow>
        (e = None \<and> StatusCode rp = 200) \<and> snd (RespBody rp) = None"
  proof
    assume "\<exists>a\<in>set (attempts evs). attempt_ok (snd a) \<and> body_readable (snd a)"
    then obtain a where a: "a \<in> set (attempts evs)" "attempt_ok (snd a)" "body_readable (snd a)"
      by blast
    with only_last have "a = last (attempts evs)" by blast
    with a last ok show "(e = None \<and> StatusCode rp = 200) \<and> snd (RespBody rp) = None"
      by (auto simp add: body_readable_def)
  next
    assume r: "(e = None \<and> StatusCode rp = 200) \<and> snd (RespBody rp) = None"
    with last have "attempt_ok (snd (last (attempts evs))) \<and> body_readable (snd (last (attempts evs)))"
      by (simp add: attempt_ok_def body_readable_def)
    moreover have "last (attempts evs) \<in> set (attempts evs)" using last by simp
    ultimately show "\<exists>a\<in>set (attempts evs). attempt_ok (snd a) \<and> body_readable (snd a)"
      by blast
  qed
  with returned(2) loop_no_ack [OF returned(1)] show ?thesis
    by (auto simp add: attempts_append ack_after_loop)
qed



theorem ack_iff_witness:
  "EvAck \<in> set (snd (msgHandler (example_world (do_status 200 ([111, 107], None)))
       example_nats (example_trigger ''name'' ''hello'' 3 ''out'' ''err'') example_msg))"
proof -
  have "\<exists>a\<in>set (attempts (snd (msgHandler (example_world (do_status 200 ([111, 107], None)))
       example_nats (example_trigger ''name'' ''hello'' 3 ''out'' ''err'') example_msg))).
        attempt_ok (snd a) \<and> body_readable (snd a)"
    by (simp add: run_ok attempt_ok_def body_readable_def)
  then show ?thesis
    using ack_iff_success_and_body_read [of "example_world (do_status 200 ([111, 107], None))"
       example_nats "example_trigger ''name'' ''hello'' 3 ''out'' ''err''" example_msg]
    by blast
qed


section \<open>The number of attempts\<close>

text \<open>
  Claim C2: with \<open>MaxRetries = N\<close> between 1 and 5 and a client whose every call
  fails (no response, an error, or a status other than 200), a handler that reaches the
  loop (the reference type is the supported one and the request could be built) calls
  the client exactly \<open>N\<close> times; these calls are the first \<open>N\<close> events of the run,
  before anything the handler does about the failure, and no acknowledge follows.
\<close>

theorem failing_endpoint_invoked_N_times:
  assumes "Type (FunctionReference (Spec trigger)) = FunctionReferenceTypeFunctionName w"
    and "NewRequest_err w ''POST'' (function_url w nats trigger) = None"
    and "MaxRetries (Spec trigger) = N" and "1 \<le> N" and "N \<le> 5"
    and "\<forall>k x. \<not> attempt_ok (Do w k x)"
  shows "length (attempts (snd (msgHandler w nats trigger msg))) = nat N
       \<and> take (nat N) (snd (msgHandler w nats trigger msg))
           = map (\<lambda>(x, res). EvDo x res) (attempts (snd (msgHandler w nats trigger msg)))
       \<and> EvAck \<notin> set (snd (msgHandler w nats trigger msg))"
proof (cases rule: msgHandler_cases [of trigger w nats msg])
  case exit
  with assms(1) show ?thesis by simp
next
  case nobuild
  with assms(2) show ?thesis by simp
next
  case (panic e q evs)
  from loop_count [OF _ panic(1)] assms(3,6) have len: "length (attempts evs) = nat N" by simp
  moreover from len loop_events_eq [OF panic(1)] have "length evs = nat N"
    by (metis length_map)
  ultimately show ?thesis
    using panic(2) loop_events_eq [OF panic(1)] loop_no_ack [OF panic(1)] by simp
next
  case (returned rp e q evs)
  from loop_count [OF _ returned(1)] assms(3,6) have len: "length (attempts evs) = nat N" by simp
  moreover from len loop_events_eq [OF returned(1)] have "length evs = nat N"
    by (metis length_map)
  moreover have "\<not> (e = None \<and> StatusCode rp = 200)"
  proof -
    have "\<not> (\<exists>a\<in>set (attempts evs). attempt_ok (snd a))"
      using loop_attempt_is_Do [OF returned(1)] assms(6) by metis
    with loop_ok_iff [OF returned(1)] show ?thesis by (simp add: final_ok_def)
  qed
  ultimately show ?thesis
    using returned(2) loop_events_eq [OF returned(1)] loop_no_ack [OF returned(1)]
    by (auto simp add: attempts_append ack_after_loop)
qed


theorem failing_endpoint_invoked_N_times_witness:
  "Type (FunctionReference (Spec (example_trigger ''name'' ''hello'' 3 ''out'' ''err'')))
     = FunctionReferenceTypeFunctionName (example_world do_unreachable)
   \<and> (1::int) \<le> 3 \<and> (3::int) \<le> 5
   \<and> length (attempts (snd (msgHandler (example_world do_unreachable) example_nats
        (example_trigger ''name'' ''hello'' 3 ''out'' ''err'') example_msg))) = 3
   \<and> EvAck \<notin> set (snd (msgHandler (example_world do_unreachable) example_nats
        (example_trigger ''name'' ''hello'' 3 ''out'' ''err'') example_msg))"
proof -
  have h1: "Type (FunctionReference (Spec (example_trigger ''name'' ''hello'' 3 ''out'' ''err'')))
     = FunctionReferenceTypeFunctionName (example_world do_unreachable)"
    by (simp add: example_trigger_fields example_world_def)
  have h2: "NewRequest_err (example_world do_unreachable) ''POST''
      (function_url (example_world do_unreachable) example_nats
         (example_trigger ''name'' ''hello'' 3 ''out'' ''err'')) = None"
    by (rule example_hello_builds)
  have h3: "MaxRetries (Spec (example_trigger ''name'' ''hello'' 3 ''out'' ''err'')) = 3"
    by (simp add: example_trigger_fields)
  have h6: "\<forall>k x. \<not> attempt_ok (Do (example_world do_unreachable) k x)"
    by (simp add: example_world_def do_unreachable_def attempt_ok_def)
  from failing_endpoint_invoked_N_times [OF h1 h2 h3 _ _ h6, of example_msg] h1
  show ?thesis by simp
qed

section \<open>A nil response\<close>

text \<open>
  Claim C3 says that the handler never dereferences the response of an attempt that gave
  none, and that it finishes without touching response fields when every attempt gives
  none. The code does not keep to it. Whenever the handler reaches the loop and every
  call of the client gives a nil response, \<open>resp\<close> is nil after the loop, and the
  \<open>defer\<close> statement of line 153 evaluates \<open>resp.Body\<close> on the nil pointer before
  the test of line 155 is reached: the run ends in a panic. The example is a router that
  cannot be reached, with three attempts allowed.
\<close>

theorem nil_response_is_dereferenced:
  assumes "Type (FunctionReference (Spec trigger)) = FunctionReferenceTypeFunctionName w"
    and "NewRequest_err w ''POST'' (function_url w nats trigger) = None"
    and "\<forall>k x. resp (Do w k x) = None"
  shows "fst (msgHandler w nats trigger msg) = Panicked"
proof (cases rule: msgHandler_cases [of trigger w nats msg])
  case exit
  with assms(1) show ?thesis by simp
next
  case nobuild
  with assms(2) show ?thesis by simp
next
  case (panic e q evs)
  then show ?thesis by simp
next
  case (returned rp e q evs)
  note last = loop_last_Some [OF returned(1)]
  then have "last (attempts evs) \<in> set (attempts evs)" by simp
  from loop_attempt_is_Do [OF returned(1) this] assms(3)
  have "resp (snd (last (attempts evs))) = None" by auto
  with last show ?thesis by simp
qed

theorem nil_response_witness:
  "map (\<lambda>a. resp (snd a)) (attempts (snd (msgHandler (example_world do_unreachable) example_nats
       (example_trigger ''name'' ''hello'' 3 ''out'' ''err'') example_msg))) = [None, None, None]
   \<and> fst (msgHandler (example_world do_unreachable) example_nats
       (example_trigger ''name'' ''hello'' 3 ''out'' ''err'') example_msg) = Panicked"
proof -
  have h1: "Type (FunctionReference (Spec (example_trigger ''name'' ''hello'' 3 ''out'' ''err'')))
     = FunctionReferenceTypeFunctionName (example_world do_unreachable)"
    by (simp add: example_trigger_fields example_world_def)
  have h2: "NewRequest_err (example_world do_unreachable) ''POST''
      (function_url (example_world do_unreachable) example_nats
         (example_trigger ''name'' ''hello'' 3 ''out'' ''err'')) = None"
    by (rule example_hello_builds)
  have h3: "\<forall>k x. resp (Do (example_world do_unreachable) k x) = None"
    by (simp add: example_world_def do_unreachable_def)
  have m: "map (\<lambda>a. resp (snd a)) (attempts (snd (msgHandler (example_world do_unreachable)
       example_nats (example_trigger ''name'' ''hello'' 3 ''out'' ''err'') example_msg)))
     = [None, None, None]"
    by (simp add: run_unreachable)
  from nil_response_is_dereferenced [OF h1 h2 h3, of example_msg] m show ?thesis by blast
qed

section \<open>Exhausted retries\<close>

text \<open>
  Claim C4, as the specification has it: a message that exhausts its retries is never
  acknowledged, one publish to the error topic follows when that topic is set, carrying
  the last body or an empty payload when there is none, and no publish when it is not
  set. The code returns before the publish when the body of the last response cannot be
  read (lines 160 to 164): two failed attempts with status 500 and a body that breaks
  off, with the error topic set, give no publish at all.
\<close>

theorem exhausted_message_counterexample:
  "length (attempts (snd (msgHandler (example_world (do_status 500 ([], Some ''unexpected EOF'')))
       example_nats (example_trigger ''name'' ''hello'' 2 ''out'' ''err'') example_msg))) = 2
   \<and> \<not> attempt_ok (snd (attempts (snd (msgHandler (example_world (do_status 500 ([], Some ''unexpected EOF'')))
       example_nats (example_trigger ''name'' ''hello'' 2 ''out'' ''err'') example_msg)) ! 0))
   \<and> \<not> attempt_ok (snd (attempts (snd (msgHandler (example_world (do_status 500 ([], Some ''unexpected EOF'')))
       example_nats (example_trigger ''name'' ''hello'' 2 ''out'' ''err'') example_msg)) ! 1))
   \<and> ErrorTopic (Spec (example_trigger ''name'' ''hello'' 2 ''out'' ''err'')) = ''err''
   \<and> publishes (snd (msgHandler (example_world (do_status 500 ([], Some ''unexpected EOF'')))
       example_nats (example_trigger ''name'' ''hello'' 2 ''out'' ''err'') example_msg)) = []"
  by (simp add: run_500_unreadable attempt_ok_def example_trigger_fields)

text \<open>
  Claim C4, amended: a message that exhausts its retries (attempts were made and none
  succeeded) is never acknowledged; no publish occurs when the error topic is unset; and
  when the last attempt gave a response, exactly one publish to the error topic occurs,
  carrying the body of that response, if the error topic is set and the body was read
  without error, and no publish occurs otherwise.
\<close>

theorem exhausted_message_effects:
  assumes "attempts (snd (msgHandler w nats trigger msg)) \<noteq> []"
    and "\<forall>a\<in>set (attempts (snd (msgHandler w nats trigger msg))). \<not> attempt_ok (snd a)"
  shows "EvAck \<notin> set (snd (msgHandler w nats trigger msg))
       \<and> (ErrorTopic (Spec trigger) = [] \<longrightarrow> publishes (snd (msgHandler w nats trigger msg)) = [])
       \<and> (\<forall>rp. resp (snd (last (attempts (snd (msgHandler w nats trigger msg))))) = Some rp \<longrightarrow>
            publishes (snd (msgHandler w nats trigger msg)) =
              (if snd (RespBody rp) = None \<and> ErrorTopic (Spec trigger) \<noteq> []
               then [(ErrorTopic (Spec trigger), fst (RespBody rp))] else []))"
proof (cases rule: msgHandler_cases [of trigger w nats msg])
  case exit
  with assms(1) show ?thesis by simp
next
  case nobuild
  with assms(1) show ?thesis by simp
next
  case (panic e q evs)
  from loop_final [OF panic(1)] assms(1) panic(2)
  have "resp (snd (last (attempts evs))) = None" by (simp split: if_splits)
  with panic(2) loop_no_ack [OF panic(1)] loop_no_publish [OF panic(1)] show ?thesis by simp
next
  case (returned rp e q evs)
  note last = loop_last_Some [OF returned(1)]
  from assms(2) returned(2) have "\<not> (\<exists>a\<in>set (attempts evs). attempt_ok (snd a))"
    by (simp add: attempts_append)
  with loop_ok_iff [OF returned(1)] have nok: "e \<noteq> None \<or> StatusCode rp \<noteq> 200"
    by (simp add: final_ok_def)
  with returned(2) last loop_no_ack [OF returned(1)] loop_no_publish [OF returned(1)]
  show ?thesis
    by (auto simp add: attempts_append publishes_append publishes_after_loop ack_after_loop)
qed

theorem exhausted_message_witness:
  "EvAck \<notin> set (snd (msgHandler (example_world (do_status 500 ([7, 8], None)))
       example_nats (example_trigger ''name'' ''hello'' 2 ''out'' ''err'') example_msg))
   \<and> publishes (snd (msgHandler (example_world (do_status 500 ([7, 8], None)))
       example_nats (example_trigger ''name'' ''hello'' 2 ''out'' ''err'') example_msg))
       = [(''err'', [7, 8])]
   \<and> publishes (snd (msgHandler (example_world (do_status 500 ([7, 8], None)))
       example_nats (example_trigger ''name'' ''hello'' 2 ''out'' '''') example_msg)) = []"
proof -
  let ?w = "example_world (do_status 500 ([7, 8], None))"
  let ?t = "example_trigger ''name'' ''hello'' 2 ''out'' ''err''"
  let ?u = "example_trigger ''name'' ''hello'' 2 ''out'' ''''"
  have a1: "attempts (snd (msgHandler ?w example_nats ?t example_msg)) \<noteq> []"
    by (simp add: run_500)
  have a2: "\<forall>a\<in>set (attempts (snd (msgHandler ?w example_nats ?t example_msg))). \<not> attempt_ok (snd a)"
    by (simp add: run_500 attempt_ok_def)
  have a3: "resp (snd (last (attempts (snd (msgHandler ?w example_nats ?t example_msg)))))
      = Some \<lparr>StatusCode = 500, RespBody = ([7, 8], None)\<rparr>"
    by (simp add: run_500)
  have a4: "ErrorTopic (Spec ?t) = ''err''"
    by (simp add: example_trigger_fields)
  have b1: "attempts (snd (msgHandler ?w example_nats ?u example_msg)) \<noteq> []"
    by (simp add: run_500_no_error_topic)
  have b2: "\<forall>a\<in>set (attempts (snd (msgHandler ?w example_nats ?u example_msg))). \<not> attempt_ok (snd a)"
    by (simp add: run_500_no_error_topic attempt_ok_def)
  have b3: "ErrorTopic (Spec ?u) = []"
    by (simp add: example_trigger_fields)
  from exhausted_message_effects [OF a1 a2] a3 a4
  have "EvAck \<notin> set (snd (msgHandler ?w example_nats ?t example_msg))"
    and "publishes (snd (msgHandler ?w example_nats ?t example_msg)) = [(''err'', [7, 8])]"
    by simp_all
  moreover from exhausted_message_effects [OF b1 b2] b3
  have "publishes (snd (msgHandler ?w example_nats ?u example_msg)) = []"
    by blast
  ultimately show ?thesis by blast
qed

text \<open>
  Claim C9: when the retries are exhausted and the body of the last attempt's response
  cannot be read, the handler returns and publishes nothing (and acknowledges nothing),
  whatever the error topic is.
\<close>

theorem unreadable_final_body_publishes_nothing:
  assumes "attempts (snd (msgHandler w nats trigger msg)) \<noteq> []"
    and "\<forall>a\<in>set (attempts (snd (msgHandler w nats trigger msg))). \<not> attempt_ok (snd a)"
    and "resp (snd (last (attempts (snd (msgHandler w nats trigger msg))))) = Some rp"
    and "snd (RespBody rp) \<noteq> None"
  shows "fst (msgHandler w nats trigger msg) = Returned
       \<and> publishes (snd (msgHandler w nats trigger msg)) = []
       \<and> EvAck \<notin> set (snd (msgHandler w nats trigger msg))"
proof (cases rule: msgHandler_cases [of trigger w nats msg])
  case exit
  with assms(1) show ?thesis by simp
next
  case nobuild
  with assms(1) show ?thesis by simp
next
  case (panic e q evs)
  from loop_final [OF panic(1)] assms(1) panic(2)
  have "resp (snd (last (attempts evs))) = None" by (simp split: if_splits)
  with panic(2) assms(3) show ?thesis by simp
next
  case (returned rp' e q evs)
  note last = loop_last_Some [OF returned(1)]
  with assms(3) returned(2) have "rp' = rp" by (simp add: attempts_append)
  with assms(4) returned(2) loop_no_ack [OF returned(1)] loop_no_publish [OF returned(1)]
  show ?thesis
    by (auto simp add: publishes_append publishes_after_loop ack_after_loop)
qed

theorem unreadable_final_body_witness:
  "ErrorTopic (Spec (example_trigger ''name'' ''hello'' 2 ''out'' ''err'')) = ''err''
   \<and> fst (msgHandler (example_world (do_status 500 ([], Some ''unexpected EOF''))) example_nats
       (example_trigger ''name'' ''hello'' 2 ''out'' ''err'') example_msg) = Returned
   \<and> publishes (snd (msgHandler (example_world (do_status 500 ([], Some ''unexpected EOF''))) example_nats
       (example_trigger ''name'' ''hello'' 2 ''out'' ''err'') example_msg)) = []"
proof -
  let ?w = "example_world (do_status 500 ([], Some ''unexpected EOF''))"
  let ?t = "example_trigger ''name'' ''hello'' 2 ''out'' ''err''"
  have a1: "attempts (snd (msgHandler ?w example_nats ?t example_msg)) \<noteq> []"
    by (simp add: run_500_unreadable)
  have a2: "\<forall>a\<in>set (attempts (snd (msgHandler ?w example_nats ?t example_msg))). \<not> attempt_ok (snd a)"
    by (simp add: run_500_unreadable attempt_ok_def)
  have a3: "resp (snd (last (attempts (snd (msgHandler ?w example_nats ?t example_msg)))))
      = Some \<lparr>StatusCode = 500, RespBody = ([], Some ''unexpected EOF'')\<rparr>"
    by (simp add: run_500_unreadable)
  have a4: "snd (RespBody \<lparr>StatusCode = 500, RespBody = ([], Some ''unexpected EOF'')\<rparr>) \<noteq> None"
    by simp
  have a5: "ErrorTopic (Spec ?t) = ''err''"
    by (simp add: example_trigger_fields)
  from unreadable_final_body_publishes_nothing [OF a1 a2 a3 a4] a5 show ?thesis by blast
qed

section \<open>Errors and the process\<close>




section \<open>Acknowledge before publish\<close>

lemma loop_nth_is_attempt:
  fixes w :: World
  assumes "retry_loop w m attempt req r0 e0 = (r, e, q, evs)" and "i < length evs"
  shows "\<exists>x res. evs ! i = EvDo x res"
proof -
  from loop_events_eq [OF assms(1)] have "length (attempts evs) = length evs"
    by (metis length_map)
  with assms(2) have "map (\<lambda>(x, res). EvDo x res) (attempts evs) ! i
      = (\<lambda>(x, res). EvDo x res) (attempts evs ! i)"
    by simp
  with loop_events_eq [OF assms(1)] show ?thesis
    by (cases "attempts evs ! i") auto
qed

lemma after_loop_publish:
  assumes "k < length (after_loop trigger rp e)" and "after_loop trigger rp e ! k = EvPublish t b"
  shows "(if e = None \<and> StatusCode rp = 200
          then EvAck \<in> set (take k (after_loop trigger rp e)) \<and> t = ResponseTopic (Spec trigger)
          else EvAck \<notin> set (after_loop trigger rp e) \<and> t = ErrorTopic (Spec trigger))"
  using assms
  by (auto simp add: after_loop_def nth_Cons' take_Cons' split: if_splits)

text \<open>
  Claim C6, as the specification has it: the acknowledge call comes before the publish to
  the response topic, and no publish to the response topic occurs without a prior
  acknowledge call. The error publish of line 173 goes to whatever topic the trigger
  names as its error topic, and nothing keeps that from being the response topic: with
  \<open>out\<close> as both, one attempt answered 500 is followed by a publish to \<open>out\<close> in a
  run that holds no acknowledge.
\<close>

theorem ack_precedes_response_publish_counterexample:
  "ResponseTopic (Spec (example_trigger ''name'' ''hello'' 1 ''out'' ''out'')) = ''out''
   \<and> snd (msgHandler (example_world (do_status 500 ([7, 8], None))) example_nats
       (example_trigger ''name'' ''hello'' 1 ''out'' ''out'') example_msg) ! 1
     = EvPublish ''out'' [7, 8]
   \<and> EvAck \<notin> set (snd (msgHandler (example_world (do_status 500 ([7, 8], None))) example_nats
       (example_trigger ''name'' ''hello'' 1 ''out'' ''out'') example_msg))"
  by (simp add: run_500_same_topic example_trigger_fields)

text \<open>
  Claim C6, amended: take any publish in a run, at position \<open>i\<close>. If the invocation
  succeeded (some attempt succeeded), an acknowledge stands before position \<open>i\<close> and
  the publish goes to the response topic. A publish with no acknowledge before it is the
  error publish of a failed invocation: it goes to the error topic, in a run where no
  attempt succeeded. So when the error topic is not the response topic, a publish to the
  response topic never occurs without a prior acknowledge call.
\<close>

theorem ack_precedes_response_publish:
  assumes "i < length (snd (msgHandler w nats trigger msg))"
    and "snd (msgHandler w nats trigger msg) ! i = EvPublish t b"
  shows "((\<exists>a\<in>set (attempts (snd (msgHandler w nats trigger msg))). attempt_ok (snd a)) \<longrightarrow>
            EvAck \<in> set (take i (snd (msgHandler w nats trigger msg)))
            \<and> t = ResponseTopic (Spec trigger))
       \<and> (EvAck \<notin> set (take i (snd (msgHandler w nats trigger msg))) \<longrightarrow>
            t = ErrorTopic (Spec trigger)
            \<and> (\<forall>a\<in>set (attempts (snd (msgHandler w nats trigger msg))). \<not> attempt_ok (snd a)))
       \<and> (t = ResponseTopic (Spec trigger)
            \<and> ErrorTopic (Spec trigger) \<noteq> ResponseTopic (Spec trigger) \<longrightarrow>
            EvAck \<in> set (take i (snd (msgHandler w nats trigger msg))))"
proof (cases rule: msgHandler_cases [of trigger w nats msg])
  case exit
  with assms(1) show ?thesis by simp
next
  case nobuild
  with assms(1) show ?thesis by simp
next
  case (panic e q evs)
  with assms loop_nth_is_attempt [OF panic(1), of i] show ?thesis by auto
next
  case (returned rp e q evs)
  have ge: "length evs \<le> i"
  proof (rule ccontr)
    assume "\<not> length evs \<le> i"
    then have lt: "i < length evs" by simp
    with loop_nth_is_attempt [OF returned(1) lt] assms(2) returned(2) show False
      by (auto simp add: nth_append)
  qed
  define k where "k = i - length evs"
  from ge assms returned(2) have k: "k < length (after_loop trigger rp e)"
    "after_loop trigger rp e ! k = EvPublish t b"
    by (auto simp add: k_def nth_append)
  have "take i (evs @ after_loop trigger rp e) = evs @ take k (after_loop trigger rp e)"
    using ge by (simp add: k_def)
  then have "set (take i (snd (msgHandler w nats trigger msg)))
      = set evs \<union> set (take k (after_loop trigger rp e))"
    by (simp only: returned(2) snd_conv set_append)
  with loop_no_ack [OF returned(1)]
  have ack_take: "EvAck \<in> set (take i (snd (msgHandler w nats trigger msg))) \<longleftrightarrow>
      EvAck \<in> set (take k (after_loop trigger rp e))"
    by simp
  have att: "attempts (snd (msgHandler w nats trigger msg)) = attempts evs"
    by (simp add: returned(2) attempts_append)
  have ok: "(\<exists>a\<in>set (attempts evs). attempt_ok (snd a)) \<longleftrightarrow> e = None \<and> StatusCode rp = 200"
    using loop_ok_iff [OF returned(1)] by (simp add: final_ok_def)
  have sub: "EvAck \<in> set (take k (after_loop trigger rp e)) \<Longrightarrow> EvAck \<in> set (after_loop trigger rp e)"
    by (rule in_set_takeD)
  show ?thesis
    unfolding ack_take att
    using after_loop_publish [OF k] ok sub by (auto split: if_splits)
qed

theorem ack_precedes_response_publish_witness:
  "snd (msgHandler (example_world (do_status 200 ([111, 107], None))) example_nats
       (example_trigger ''name'' ''hello'' 3 ''out'' ''err'') example_msg) ! 2
     = EvPublish ''out'' [111, 107]
   \<and> ''out'' = ResponseTopic (Spec (example_trigger ''name'' ''hello'' 3 ''out'' ''err''))
   \<and> EvAck \<in> set (take 2 (snd (msgHandler (example_world (do_status 200 ([111, 107], None)))
       example_nats (example_trigger ''name'' ''hello'' 3 ''out'' ''err'') example_msg)))
   \<and> snd (msgHandler (example_world (do_status 500 ([7, 8], None))) example_nats
       (example_trigger ''name'' ''hello'' 1 ''out'' ''err'') example_msg) ! 1
     = EvPublish ''err'' [7, 8]
   \<and> ''err'' = ErrorTopic (Spec (example_trigger ''name'' ''hello'' 1 ''out'' ''err''))"
proof -
  let ?w = "example_world (do_status 200 ([111, 107], None))"
  let ?t = "example_trigger ''name'' ''hello'' 3 ''out'' ''err''"
  let ?v = "example_world (do_status 500 ([7, 8], None))"
  let ?u = "example_trigger ''name'' ''hello'' 1 ''out'' ''err''"
  have a1: "2 < length (snd (msgHandler ?w example_nats ?t example_msg))"
    by (simp add: run_ok)
  have a2: "snd (msgHandler ?w example_nats ?t example_msg) ! 2 = EvPublish ''out'' [111, 107]"
    by (simp add: run_ok)
  have a3: "''out'' = ResponseTopic (Spec ?t) \<and> ErrorTopic (Spec ?t) \<noteq> ResponseTopic (Spec ?t)"
    by (simp add: example_trigger_fields)
  have b1: "1 < length (snd (msgHandler ?v example_nats ?u example_msg))"
    by (simp add: run_500_once)
  have b2: "snd (msgHandler ?v example_nats ?u example_msg) ! 1 = EvPublish ''err'' [7, 8]"
    by (simp add: run_500_once)
  have b3: "EvAck \<notin> set (take 1 (snd (msgHandler ?v example_nats ?u example_msg)))"
    by (simp add: run_500_once)
  from ack_precedes_response_publish [OF a1 a2] a3
  have "EvAck \<in> set (take 2 (snd (msgHandler ?w example_nats ?t example_msg)))" by blast
  moreover from ack_precedes_response_publish [OF b1 b2] b3
  have "''err'' = ErrorTopic (Spec ?u)" by blast
  ultimately show ?thesis using a2 a3 b2 by blast
qed

section \<open>Subscribing\<close>

text \<open>
  Claim C7: for a trigger whose topic the broker's name check rejects, \<open>subscribe\<close>
  returns an error and has made no call to the broker.
\<close>

theorem invalid_topic_never_subscribes:
  assumes "\<not> isTopicValidForNats w (Topic (Spec trigger))"
  shows "subscribe w nats trigger = (Inl (''Not a valid topic: '' @ Topic (Spec trigger)), [])"
  using assms by (simp add: subscribe_def)

theorem invalid_topic_never_subscribes_witness:
  "\<not> isTopicValidForNats (example_world do_unreachable) (Topic (Spec wildcard_trigger))
   \<and> subscribe (example_world do_unreachable) example_nats wildcard_trigger
       = (Inl (''Not a valid topic: '' @ Topic (Spec wildcard_trigger)), [])"
proof -
  have h: "\<not> isTopicValidForNats (example_world do_unreachable) (Topic (Spec wildcard_trigger))"
    by (simp add: isTopicValidForNats_def example_world_def wildcard_trigger_def)
  from invalid_topic_never_subscribes [OF h, of example_nats] h show ?thesis by blast
qed

section \<open>The request\<close>

lemma add_headers_Nil [simp]: "add_headers [] req = req"
  by (simp add: add_headers_def)

lemma add_headers_Cons [simp]:
  "add_headers ((k, v) # hs) req = add_headers hs (req\<lparr>Header := Header_Add (Header req) k v\<rparr>)"
  by (simp add: add_headers_def)

lemma add_headers_fields:
  "Method (add_headers hs req) = Method req \<and> URL (add_headers hs req) = URL req
   \<and> Body (add_headers hs req) = Body req"
  by (induction hs arbitrary: req) auto

lemma map_of_bump_other:
  "c \<noteq> k \<Longrightarrow>
   map_of (map (\<lambda>(k', vs'). if k' = c then (k', vs' @ [v]) else (k', vs')) h) k = map_of h k"
  by (induction h) auto

lemma map_of_Header_Add_other:
  "CanonicalMIMEHeaderKey key \<noteq> k \<Longrightarrow> map_of (Header_Add h key v) k = map_of h k"
  by (auto simp add: Header_Add_def Let_def map_of_bump_other map_add_def split: option.splits)

lemma map_of_Header_Add_new:
  "map_of h (CanonicalMIMEHeaderKey key) = None \<Longrightarrow>
   map_of (Header_Add h key v) (CanonicalMIMEHeaderKey key) = Some [v]"
  by (simp add: Header_Add_def Let_def map_add_def)

lemma add_headers_other:
  "k \<notin> set (map (CanonicalMIMEHeaderKey \<circ> fst) hs) \<Longrightarrow>
   map_of (Header (add_headers hs req)) k = map_of (Header req) k"
  by (induction hs arbitrary: req) (auto simp add: map_of_Header_Add_other)

lemma add_headers_lookup:
  assumes "distinct (map (CanonicalMIMEHeaderKey \<circ> fst) hs)"
    and "(key, v) \<in> set hs"
    and "\<forall>p\<in>set hs. map_of (Header req) (CanonicalMIMEHeaderKey (fst p)) = None"
  shows "map_of (Header (add_headers hs req)) (CanonicalMIMEHeaderKey key) = Some [v]"
  using assms
proof (induction hs arbitrary: req)
  case Nil
  then show ?case by simp
next
  case (Cons p hs)
  obtain k0 v0 where p: "p = (k0, v0)" by (cases p)
  let ?req' = "req\<lparr>Header := Header_Add (Header req) k0 v0\<rparr>"
  show ?case
  proof (cases "(key, v) = (k0, v0)")
    case True
    from Cons.prems(1) p have "CanonicalMIMEHeaderKey k0 \<notin> set (map (CanonicalMIMEHeaderKey \<circ> fst) hs)"
      by simp
    from add_headers_other [OF this, of ?req'] Cons.prems(3) p True
    show ?thesis by (simp add: map_of_Header_Add_new)
  next
    case False
    with Cons.prems(2) p have mem: "(key, v) \<in> set hs" by auto
    have "\<forall>p\<in>set hs. map_of (Header ?req') (CanonicalMIMEHeaderKey (fst p)) = None"
    proof
      fix p' assume p': "p' \<in> set hs"
      with Cons.prems(1) p have "CanonicalMIMEHeaderKey k0 \<noteq> CanonicalMIMEHeaderKey (fst p')"
        by auto
      with Cons.prems(3) p' show "map_of (Header ?req') (CanonicalMIMEHeaderKey (fst p')) = None"
        by (simp add: map_of_Header_Add_other)
    qed
    with Cons.IH [of ?req'] Cons.prems(1) mem p show ?thesis by simp
  qed
qed

lemma canonical_header_keys:
  "CanonicalMIMEHeaderKey ''X-Fission-MQTrigger-Topic'' = ''X-Fission-Mqtrigger-Topic''"
  "CanonicalMIMEHeaderKey ''X-Fission-MQTrigger-RespTopic'' = ''X-Fission-Mqtrigger-Resptopic''"
  "CanonicalMIMEHeaderKey ''X-Fission-MQTrigger-ErrorTopic'' = ''X-Fission-Mqtrigger-Errortopic''"
  "CanonicalMIMEHeaderKey ''Content-Type'' = ''Content-Type''"
  by code_simp+

lemma headers_distinct: "distinct (map (CanonicalMIMEHeaderKey \<circ> fst) (headers trigger))"
  by (simp add: headers_def canonical_header_keys)

lemma first_request_header:
  assumes "mset (RangeOrder w (headers trigger)) = mset (headers trigger)"
    and "(key, v) \<in> set (headers trigger)"
  shows "Header_Get (Header (first_request w nats trigger msg)) key = v"
proof -
  let ?hs = "RangeOrder w (headers trigger)"
  have "mset (map (CanonicalMIMEHeaderKey \<circ> fst) ?hs)
      = mset (map (CanonicalMIMEHeaderKey \<circ> fst) (headers trigger))"
    using assms(1) by (metis mset_map)
  then have d: "distinct (map (CanonicalMIMEHeaderKey \<circ> fst) ?hs)"
    using headers_distinct [of trigger] by (metis mset_eq_imp_distinct_iff)
  have m: "(key, v) \<in> set ?hs"
    using assms by (metis mset_eq_setD)
  have "map_of (Header (first_request w nats trigger msg)) (CanonicalMIMEHeaderKey key) = Some [v]"
    unfolding first_request_def
    by (rule add_headers_lookup [OF d m]) simp
  then show ?thesis by (simp add: Header_Get_def)
qed

lemma first_request_fields:
  "Method (first_request w nats trigger msg) = ''POST''"
  "URL (first_request w nats trigger msg) = function_url w nats trigger"
  "Body (first_request w nats trigger msg) = NewReader (Data msg)"
  by (simp_all add: first_request_def add_headers_fields)

lemma loop_requests:
  fixes w :: World
  shows "retry_loop w m attempt req r0 e0 = (r, e, q, evs) \<Longrightarrow>
         rd_off (Body req) \<le> length (rd_data (Body req)) \<Longrightarrow>
         a \<in> set (attempts evs) \<Longrightarrow>
         Method (fst a) = Method req \<and> URL (fst a) = URL req \<and> Header (fst a) = Header req
         \<and> rd_data (Body (fst a)) = rd_data (Body req)
         \<and> rd_off (Body req) \<le> rd_off (Body (fst a))
         \<and> rd_off (Body (fst a)) \<le> length (rd_data (Body req))"
proof (induction attempt req r0 e0 arbitrary: evs rule: retry_loop_induct [where w = w and m = m])
  case (step attempt req r0 e0)
  from step.prems(1) show ?case
  proof (cases rule: retry_loop_cases)
    case stop
    with step.prems(3) show ?thesis by simp
  next
    case ok
    with step.prems(2,3) show ?thesis by auto
  next
    case (fail evs')
    show ?thesis
    proof (cases "a = (req, Do w (nat attempt) req)")
      case True
      with step.prems(2) show ?thesis by simp
    next
      case False
      with fail(4) step.prems(3) have a: "a \<in> set (attempts evs')" by simp
      have inv: "rd_off (Body (step_request req (Do w (nat attempt) req)))
          \<le> length (rd_data (Body (step_request req (Do w (nat attempt) req))))"
        by (simp add: step_request_def Reader_advance_def)
      from step.IH [OF fail(1,2,3) inv a] step.prems(2) show ?thesis
        by (auto simp add: step_request_def Reader_advance_def)
    qed
  qed
qed

lemma loop_first:
  fixes w :: World
  assumes "retry_loop w m attempt req r0 e0 = (r, e, q, evs)" and "attempts evs \<noteq> []"
  shows "fst (attempts evs ! 0) = req"
  using assms(1)
proof (cases rule: retry_loop_cases)
  case stop
  with assms(2) show ?thesis by simp
next
  case ok
  then show ?thesis by simp
next
  case (fail evs')
  then show ?thesis by simp
qed


lemma handler_attempts_loop:
  assumes "attempts (snd (msgHandler w nats trigger msg)) \<noteq> []"
  obtains r e q evs where
    "retry_loop w (MaxRetries (Spec trigger)) 0 (first_request w nats trigger msg) None None
       = (r, e, q, evs)"
    "attempts (snd (msgHandler w nats trigger msg)) = attempts evs"
proof (cases rule: msgHandler_cases [of trigger w nats msg])
  case exit
  with assms show ?thesis by simp
next
  case nobuild
  with assms show ?thesis by simp
next
  case (panic e q evs)
  then show ?thesis using that by simp
next
  case (returned rp e q evs)
  then show ?thesis using that by (simp add: attempts_append)
qed

lemma first_request_inv:
  "rd_off (Body (first_request w nats trigger msg))
     \<le> length (rd_data (Body (first_request w nats trigger msg)))"
  by (simp add: first_request_fields NewReader_def)

text \<open>
  Claim C8, as the specification has it: every request carries the payload as its body
  and headers named \<open>X-MQTrigger-Topic\<close>, \<open>X-MQTrigger-RespTopic\<close>,
  \<open>X-MQTrigger-ErrorTopic\<close> and \<open>Content-Type\<close>. The code names the first three
  \<open>X-Fission-MQTrigger-...\<close> (lines 106 to 111), so a request has no header
  \<open>X-MQTrigger-Topic\<close>; and in a run of two attempts whose first call read the body,
  nothing of the payload is left in the body of the second.
\<close>

theorem request_headers_counterexample:
  "Topic (Spec (example_trigger ''name'' ''hello'' 2 ''out'' ''err'')) = ''in''
   \<and> Header_Get (Header (fst (attempts (snd (msgHandler (example_world (do_status 500 ([7, 8], None)))
       example_nats (example_trigger ''name'' ''hello'' 2 ''out'' ''err'') example_msg)) ! 0)))
       ''X-MQTrigger-Topic'' = []
   \<and> Data example_msg = [104, 105]
   \<and> Reader_remaining (Body (fst (attempts (snd (msgHandler (example_world (do_status 500 ([7, 8], None)))
       example_nats (example_trigger ''name'' ''hello'' 2 ''out'' ''err'') example_msg)) ! 1))) = []"
  by (simp add: run_500 example_trigger_fields example_msg_data example_request_def Header_Get_def
      canonical_spec_key Reader_remaining_def)

text \<open>
  Claim C8, amended: every request is a POST to the function's URL with headers
  \<open>X-Fission-MQTrigger-Topic\<close>, \<open>X-Fission-MQTrigger-RespTopic\<close>,
  \<open>X-Fission-MQTrigger-ErrorTopic\<close> and \<open>Content-Type\<close> holding the trigger's
  topic, response topic, error topic and content type, in whatever order \<open>range\<close>
  walks the map; its body is the reader made over the message payload, and at the first
  attempt the whole payload is still to be read from it.
\<close>

theorem request_headers_and_body:
  assumes "mset (RangeOrder w (headers trigger)) = mset (headers trigger)"
    and "a \<in> set (attempts (snd (msgHandler w nats trigger msg)))"
  shows "Method (fst a) = ''POST'' \<and> URL (fst a) = function_url w nats trigger
       \<and> Header_Get (Header (fst a)) ''X-Fission-MQTrigger-Topic'' = Topic (Spec trigger)
       \<and> Header_Get (Header (fst a)) ''X-Fission-MQTrigger-RespTopic'' = ResponseTopic (Spec trigger)
       \<and> Header_Get (Header (fst a)) ''X-Fission-MQTrigger-ErrorTopic'' = ErrorTopic (Spec trigger)
       \<and> Header_Get (Header (fst a)) ''Content-Type'' = ContentType (Spec trigger)
       \<and> rd_data (Body (fst a)) = Data msg
       \<and> Reader_remaining (Body (fst (attempts (snd (msgHandler w nats trigger msg)) ! 0))) = Data msg"
proof -
  from assms(2) have ne: "attempts (snd (msgHandler w nats trigger msg)) \<noteq> []" by auto
  then obtain r e q evs where loop:
    "retry_loop w (MaxRetries (Spec trigger)) 0 (first_request w nats trigger msg) None None
       = (r, e, q, evs)"
    and att: "attempts (snd (msgHandler w nats trigger msg)) = attempts evs"
    by (rule handler_attempts_loop)
  from assms(2) att have a: "a \<in> set (attempts evs)" by simp
  note req = loop_requests [OF loop first_request_inv a]
  from loop_first [OF loop] ne att
  have first: "fst (attempts (snd (msgHandler w nats trigger msg)) ! 0)
      = first_request w nats trigger msg"
    by simp
  have hd: "Header (fst a) = Header (first_request w nats trigger msg)" using req by simp
  have "Header_Get (Header (fst a)) ''X-Fission-MQTrigger-Topic'' = Topic (Spec trigger)"
    unfolding hd by (rule first_request_header [OF assms(1)]) (simp add: headers_def)
  moreover
  have "Header_Get (Header (fst a)) ''X-Fission-MQTrigger-RespTopic'' = ResponseTopic (Spec trigger)"
    unfolding hd by (rule first_request_header [OF assms(1)]) (simp add: headers_def)
  moreover
  have "Header_Get (Header (fst a)) ''X-Fission-MQTrigger-ErrorTopic'' = ErrorTopic (Spec trigger)"
    unfolding hd by (rule first_request_header [OF assms(1)]) (simp add: headers_def)
  moreover
  have "Header_Get (Header (fst a)) ''Content-Type'' = ContentType (Spec trigger)"
    unfolding hd by (rule first_request_header [OF assms(1)]) (simp add: headers_def)
  moreover
  have "Method (fst a) = ''POST''" "URL (fst a) = function_url w nats trigger"
    "rd_data (Body (fst a)) = Data msg"
    using req by (simp_all add: first_request_fields NewReader_def)
  moreover
  have "Reader_remaining (Body (fst (attempts (snd (msgHandler w nats trigger msg)) ! 0))) = Data msg"
    unfolding first by (simp add: first_request_fields NewReader_def Reader_remaining_def)
  ultimately show ?thesis by simp
qed

theorem request_headers_witness:
  "Header_Get (Header (fst (attempts (snd (msgHandler (example_world (do_status 500 ([7, 8], None)))
       example_nats (example_trigger ''name'' ''hello'' 2 ''out'' ''err'') example_msg)) ! 1)))
       ''X-Fission-MQTrigger-Topic'' = ''in''
   \<and> Header_Get (Header (fst (attempts (snd (msgHandler (example_world (do_status 500 ([7, 8], None)))
       example_nats (example_trigger ''name'' ''hello'' 2 ''out'' ''err'') example_msg)) ! 1)))
       ''Content-Type'' = ''text/plain''
   \<and> Reader_remaining (Body (fst (attempts (snd (msgHandler (example_world (do_status 500 ([7, 8], None)))
       example_nats (example_trigger ''name'' ''hello'' 2 ''out'' ''err'') example_msg)) ! 0)))
       = [104, 105]"
proof -
  let ?w = "example_world (do_status 500 ([7, 8], None))"
  let ?t = "example_trigger ''name'' ''hello'' 2 ''out'' ''err''"
  have h1: "mset (RangeOrder ?w (headers ?t)) = mset (headers ?t)"
    by (simp add: example_world_def)
  have h2: "attempts (snd (msgHandler ?w example_nats ?t example_msg)) ! 1
      \<in> set (attempts (snd (msgHandler ?w example_nats ?t example_msg)))"
    by (simp add: run_500)
  have v: "Topic (Spec ?t) = ''in''" "ContentType (Spec ?t) = ''text/plain''"
    "Data example_msg = [104, 105]"
    by (simp_all add: example_trigger_fields example_msg_data)
  from request_headers_and_body [OF h1 h2] v show ?thesis by simp
qed



end
